theory Spec2Isabelle
  imports Complex_Main "HOL-Library.AList"
begin

section \<open>Data model\<close>

text \<open>
  The server keeps three pieces of module-level state: the room table and the colour
  index of \<^verbatim>\<open>rooms.js\<close>, and the operation id counter of
  \<^verbatim>\<open>drawing-state.js\<close>. Every connection adds one closure variable,
  \<^verbatim>\<open>currentRoom\<close>, in \<^verbatim>\<open>server.js\<close>.

  JavaScript numbers that only count (ids, the colour index, timestamps) are natural
  numbers here: the counters start at 0 and grow by one, which is exact in a double below
  \<open>2 ^ 53\<close>. Coordinates and widths are real numbers. The users of a room are a
  JavaScript \<^verbatim>\<open>Map\<close>, whose iteration order is insertion order and is
  observable through \<^verbatim>\<open>Array.from(room.users.values())\<close>, so they are an
  association list: \<^const>\<open>AList.update\<close> is \<^verbatim>\<open>Map.set\<close> (replace in
  place, or append), \<^const>\<open>AList.delete\<close> is \<^verbatim>\<open>Map.delete\<close>,
  \<^const>\<open>map_of\<close> is \<^verbatim>\<open>Map.get\<close> and \<^const>\<open>length\<close> is
  \<^verbatim>\<open>Map.size\<close>. The room table and the cursors are never iterated by the code
  modelled here, so they are plain maps.
\<close>

type_synonym roomId = string
type_synonym socketId = string

record point =
  p_x :: real
  p_y :: real

record user =
  u_userId :: socketId
  u_username :: string
  u_color :: string
  u_joinedAt :: nat

record cursor =
  c_x :: real
  c_y :: real
  c_lastUpdate :: nat

record operationData =
  d_points :: "point list"
  d_color :: string
  d_width :: real
  d_tool :: string

record operation =
  op_id :: nat
  op_userId :: socketId
  op_timestamp :: nat
  op_type :: string
  op_points :: "point list"
  op_color :: string
  op_width :: real
  op_tool :: string

record room =
  users :: "(socketId \<times> user) list"
  operations :: "operation list"
  cursors :: "socketId \<rightharpoonup> cursor"

record state =
  rooms :: "roomId \<rightharpoonup> room"
  colorIndex :: nat
  operationIdCounter :: nat
  currentRoom :: "socketId \<rightharpoonup> roomId option"

text \<open>
  \<open>currentRoom s sid = None\<close>: no connection with that socket id is open;
  \<open>Some None\<close>: the connection is open and its variable is still \<^verbatim>\<open>null\<close>;
  \<open>Some (Some r)\<close>: the variable holds the room id \<open>r\<close>.
\<close>

definition init :: state where
  "init = \<lparr>rooms = Map.empty, colorIndex = 0, operationIdCounter = 0,
            currentRoom = Map.empty\<rparr>"

section \<open>rooms.js\<close>

definition USER_COLORS :: "string list" where
  "USER_COLORS =
     [''#FF6B6B'', ''#4ECDC4'', ''#45B7D1'', ''#FFA07A'', ''#98D8C8'',
      ''#F7DC6F'', ''#BB8FCE'', ''#85C1E2'', ''#F8B739'', ''#52B788'',
      ''#FF8FA3'', ''#6C5CE7'', ''#00B894'', ''#FDCB6E'', ''#E17055'']"

text \<open>The decimal digits of a number, for the template string \<^verbatim>\<open>`User${n}`\<close>.\<close>

fun string_of_nat :: "nat \<Rightarrow> string" where
  "string_of_nat n =
     (if n < 10 then [''0123456789'' ! n]
      else string_of_nat (n div 10) @ [''0123456789'' ! (n mod 10)])"

declare string_of_nat.simps [simp del]

definition newRoom :: room where
  "newRoom = \<lparr>users = [], operations = [], cursors = Map.empty\<rparr>"

text \<open>
  \<^verbatim>\<open>getRoom\<close> returns a reference to the room object stored in the table; the
  model returns the room's value and the table, and every caller that mutates the object
  writes it back under the same key.
\<close>

definition getRoom :: "roomId \<Rightarrow> state \<Rightarrow> room \<times> state" where
  "getRoom roomId s =
     (case rooms s roomId of
        None \<Rightarrow> (newRoom, s\<lparr>rooms := (rooms s)(roomId \<mapsto> newRoom)\<rparr>)
      | Some rm \<Rightarrow> (rm, s))"

text \<open>
  \<^verbatim>\<open>username || `User${room.users.size + 1}`\<close>: a missing and an empty name are
  both falsy.
\<close>

definition addUserToRoom ::
  "roomId \<Rightarrow> socketId \<Rightarrow> string option \<Rightarrow> nat \<Rightarrow> state \<Rightarrow> user \<times> state" where
  "addUserToRoom roomId socketId username now s =
     (let (rm, s1) = getRoom roomId s;
          color = USER_COLORS ! (colorIndex s1 mod length USER_COLORS);
          usr = \<lparr>u_userId = socketId,
                 u_username =
                   (case username of
                      None \<Rightarrow> ''User'' @ string_of_nat (length (users rm) + 1)
                    | Some n \<Rightarrow>
                        if n = [] then ''User'' @ string_of_nat (length (users rm) + 1)
                        else n),
                 u_color = color,
                 u_joinedAt = now\<rparr>;
          rm' = rm\<lparr>users := AList.update socketId usr (users rm)\<rparr>
      in (usr, s1\<lparr>rooms := (rooms s1)(roomId \<mapsto> rm'),
                   colorIndex := colorIndex s1 + 1\<rparr>))"

text \<open>
  \<^verbatim>\<open>removeUserFromRoom\<close> returns \<^verbatim>\<open>null\<close> when the table has no such
  room and \<^verbatim>\<open>undefined\<close> when the room has no such user; both are \<open>None\<close>.
\<close>

definition removeUserFromRoom :: "roomId \<Rightarrow> socketId \<Rightarrow> state \<Rightarrow> user option \<times> state" where
  "removeUserFromRoom roomId socketId s =
     (case rooms s roomId of
        None \<Rightarrow> (None, s)
      | Some rm \<Rightarrow>
          (let usr = map_of (users rm) socketId;
               rm' = rm\<lparr>users := AList.delete socketId (users rm),
                        cursors := (cursors rm)(socketId := None)\<rparr>
           in if length (users rm') = 0
              then (usr, s\<lparr>rooms := (rooms s)(roomId := None)\<rparr>)
              else (usr, s\<lparr>rooms := (rooms s)(roomId \<mapsto> rm')\<rparr>)))"

definition getRoomUsers :: "roomId \<Rightarrow> state \<Rightarrow> user list" where
  "getRoomUsers roomId s =
     (case rooms s roomId of None \<Rightarrow> [] | Some rm \<Rightarrow> map snd (users rm))"

definition updateCursor :: "roomId \<Rightarrow> socketId \<Rightarrow> real \<Rightarrow> real \<Rightarrow> nat \<Rightarrow> state \<Rightarrow> state" where
  "updateCursor roomId socketId cx cy now s =
     (case rooms s roomId of
        None \<Rightarrow> s
      | Some rm \<Rightarrow>
          s\<lparr>rooms := (rooms s)(roomId \<mapsto>
               rm\<lparr>cursors := (cursors rm)(socketId \<mapsto>
                    \<lparr>c_x = cx, c_y = cy, c_lastUpdate = now\<rparr>)\<rparr>)\<rparr>)"

section \<open>drawing-state.js\<close>

text \<open>
  The only caller of \<^verbatim>\<open>addOperation\<close> passes an object with exactly the four
  fields \<^verbatim>\<open>points\<close>, \<^verbatim>\<open>color\<close>, \<^verbatim>\<open>width\<close> and
  \<^verbatim>\<open>tool\<close>, so the spread \<^verbatim>\<open>...operationData\<close> adds these four and
  overwrites none of \<^verbatim>\<open>id\<close>, \<^verbatim>\<open>userId\<close>,
  \<^verbatim>\<open>timestamp\<close>, \<^verbatim>\<open>type\<close>.
\<close>

definition addOperation ::
  "roomId \<Rightarrow> socketId \<Rightarrow> operationData \<Rightarrow> nat \<Rightarrow> state \<Rightarrow> operation \<times> state" where
  "addOperation roomId userId opData now s =
     (let (rm, s1) = getRoom roomId s;
          n = operationIdCounter s1 + 1;
          opn = \<lparr>op_id = n, op_userId = userId, op_timestamp = now, op_type = ''draw'',
                 op_points = d_points opData, op_color = d_color opData,
                 op_width = d_width opData, op_tool = d_tool opData\<rparr>
      in (opn, s1\<lparr>rooms := (rooms s1)(roomId \<mapsto> rm\<lparr>operations := operations rm @ [opn]\<rparr>),
                   operationIdCounter := n\<rparr>))"

definition undoOperation :: "roomId \<Rightarrow> state \<Rightarrow> operation option \<times> state" where
  "undoOperation roomId s =
     (let (rm, s1) = getRoom roomId s
      in if length (operations rm) = 0 then (None, s1)
         else (Some (last (operations rm)),
               s1\<lparr>rooms := (rooms s1)(roomId \<mapsto> rm\<lparr>operations := butlast (operations rm)\<rparr>)\<rparr>))"

definition getOperations :: "roomId \<Rightarrow> state \<Rightarrow> operation list \<times> state" where
  "getOperations roomId s = (let (rm, s1) = getRoom roomId s in (operations rm, s1))"

section \<open>server.js\<close>

text \<open>
  What a handler sends is recorded as a list of emissions, in the order of the calls:
  \<^verbatim>\<open>socket.emit\<close> reaches the socket itself, \<^verbatim>\<open>io.to(room).emit\<close>
  every socket of the room, the sender included, and \<^verbatim>\<open>socket.to(room).emit\<close>
  every socket of the room but the sender.
\<close>

record drawStartData =
  ds_x :: real
  ds_y :: real
  ds_color :: string
  ds_width :: real
  ds_tool :: string

datatype message =
    FullSync "operation list" "user list"
  | UserJoined socketId user "user list"
  | DrawStartMsg socketId drawStartData
  | DrawMoveMsg socketId point
  | OperationAdded operation
  | OperationRemoved nat
  | CursorUpdate socketId real real
  | UserLeft socketId "user option" "user list"

datatype emission =
    SocketEmit socketId message
  | IoTo roomId message
  | SocketTo socketId roomId message

datatype event =
    Connection
  | JoinRoom roomId "string option"
  | DrawStart drawStartData
  | DrawMove point
  | DrawEnd operationData
  | Undo
  | CursorMove real real
  | Disconnect

text \<open>
  \<^verbatim>\<open>if (!currentRoom) return\<close>: \<^verbatim>\<open>null\<close> and the empty string are
  the falsy values a room id variable can hold.
\<close>

fun truthy :: "roomId option \<Rightarrow> bool" where
  "truthy None = False"
| "truthy (Some r) = (r \<noteq> [])"

definition on_join_room ::
  "socketId \<Rightarrow> roomId \<Rightarrow> string option \<Rightarrow> nat \<Rightarrow> state \<Rightarrow> state \<times> emission list" where
  "on_join_room sid roomId username now s =
     (let s0 = s\<lparr>currentRoom := (currentRoom s)(sid \<mapsto> Some roomId)\<rparr>;
          (usr, s1) = addUserToRoom roomId sid username now s0;
          (ops, s2) = getOperations roomId s1;
          us = getRoomUsers roomId s2
      in (s2, [SocketEmit sid (FullSync ops us), IoTo roomId (UserJoined sid usr us)]))"

definition on_draw_start ::
  "socketId \<Rightarrow> roomId option \<Rightarrow> drawStartData \<Rightarrow> state \<Rightarrow> state \<times> emission list" where
  "on_draw_start sid cr dat s =
     (if \<not> truthy cr then (s, [])
      else (s, [SocketTo sid (the cr) (DrawStartMsg sid dat)]))"

definition on_draw_move ::
  "socketId \<Rightarrow> roomId option \<Rightarrow> point \<Rightarrow> state \<Rightarrow> state \<times> emission list" where
  "on_draw_move sid cr dat s =
     (if \<not> truthy cr then (s, [])
      else (s, [SocketTo sid (the cr) (DrawMoveMsg sid dat)]))"

definition on_draw_end ::
  "socketId \<Rightarrow> roomId option \<Rightarrow> operationData \<Rightarrow> nat \<Rightarrow> state \<Rightarrow> state \<times> emission list" where
  "on_draw_end sid cr dat now s =
     (if \<not> truthy cr then (s, [])
      else (let (opn, s1) = addOperation (the cr) sid dat now s
            in (s1, [IoTo (the cr) (OperationAdded opn)])))"

definition on_undo :: "socketId \<Rightarrow> roomId option \<Rightarrow> state \<Rightarrow> state \<times> emission list" where
  "on_undo sid cr s =
     (if \<not> truthy cr then (s, [])
      else (let (removedOperation, s1) = undoOperation (the cr) s
            in case removedOperation of
                 None \<Rightarrow> (s1, [])
               | Some opn \<Rightarrow> (s1, [IoTo (the cr) (OperationRemoved (op_id opn))])))"

definition on_cursor_move ::
  "socketId \<Rightarrow> roomId option \<Rightarrow> real \<Rightarrow> real \<Rightarrow> nat \<Rightarrow> state \<Rightarrow> state \<times> emission list" where
  "on_cursor_move sid cr cx cy now s =
     (if \<not> truthy cr then (s, [])
      else (updateCursor (the cr) sid cx cy now s,
            [SocketTo sid (the cr) (CursorUpdate sid cx cy)]))"

definition on_disconnect :: "socketId \<Rightarrow> roomId option \<Rightarrow> state \<Rightarrow> state \<times> emission list" where
  "on_disconnect sid cr s =
     (if truthy cr
      then (let (usr, s1) = removeUserFromRoom (the cr) sid s;
                us = getRoomUsers (the cr) s1
            in (s1, [IoTo (the cr) (UserLeft sid usr us)]))
      else (s, []))"

text \<open>
  One event of the event loop: the socket it arrives on, the value of
  \<^verbatim>\<open>Date.now()\<close> while it is handled, and the event. A connection gets a socket
  id that no open connection has; its handlers exist from the \<^verbatim>\<open>connection\<close>
  event on, and no event reaches them after \<^verbatim>\<open>disconnect\<close>, so an event for a
  socket id without an open connection changes nothing.
\<close>

definition handle :: "nat \<Rightarrow> socketId \<Rightarrow> event \<Rightarrow> state \<Rightarrow> state \<times> emission list" where
  "handle now sid ev s =
     (case currentRoom s sid of
        None \<Rightarrow>
          (case ev of
             Connection \<Rightarrow> (s\<lparr>currentRoom := (currentRoom s)(sid \<mapsto> None)\<rparr>, [])
           | _ \<Rightarrow> (s, []))
      | Some cr \<Rightarrow>
          (case ev of
             Connection \<Rightarrow> (s, [])
           | JoinRoom roomId username \<Rightarrow> on_join_room sid roomId username now s
           | DrawStart dat \<Rightarrow> on_draw_start sid cr dat s
           | DrawMove dat \<Rightarrow> on_draw_move sid cr dat s
           | DrawEnd dat \<Rightarrow> on_draw_end sid cr dat now s
           | Undo \<Rightarrow> on_undo sid cr s
           | CursorMove cx cy \<Rightarrow> on_cursor_move sid cr cx cy now s
           | Disconnect \<Rightarrow>
               (let (s1, out) = on_disconnect sid cr s
                in (s1\<lparr>currentRoom := (currentRoom s1)(sid := None)\<rparr>, out))))"

fun run :: "(nat \<times> socketId \<times> event) list \<Rightarrow> state \<Rightarrow> state \<times> emission list" where
  "run [] s = (s, [])"
| "run ((now, sid, ev) # evs) s =
     (let (s1, out1) = handle now sid ev s;
          (s2, out2) = run evs s1
      in (s2, out1 @ out2))"

inductive reachable :: "state \<Rightarrow> bool" where
  reachable_init: "reachable init"
| reachable_step: "reachable s \<Longrightarrow> reachable (fst (handle now sid ev s))"

section \<open>Observations\<close>

text \<open>
  Reading the state without changing it: the history of a room (empty when the table has
  no such room), and the operations that a list of emissions announces as committed.
\<close>

definition history :: "roomId \<Rightarrow> state \<Rightarrow> operation list" where
  "history roomId s = (case rooms s roomId of None \<Rightarrow> [] | Some rm \<Rightarrow> operations rm)"

fun committed :: "emission list \<Rightarrow> operation list" where
  "committed [] = []"
| "committed (IoTo r (OperationAdded opn) # es) = opn # committed es"
| "committed (e # es) = committed es"

text \<open>
  A sequence of commits, each into the room it names; the result lists the committed
  operations with their rooms, in commit order.
\<close>

fun commits ::
  "(roomId \<times> socketId \<times> operationData \<times> nat) list \<Rightarrow> state \<Rightarrow>
   (roomId \<times> operation) list \<times> state" where
  "commits [] s = ([], s)"
| "commits ((r, u, d, now) # cs) s =
     (let (opn, s1) = addOperation r u d now s;
          (ops, s2) = commits cs s1
      in ((r, opn) # ops, s2))"


section \<open>canvasOperations.js: path simplification\<close>

text \<open>
  Coordinates are real numbers and the arithmetic is exact. The recursion of
  \<^verbatim>\<open>optimizePath\<close> need not end (with a negative tolerance and all interior
  points on the chord, \<^verbatim>\<open>maxIndex\<close> stays 0 and the right half is the whole
  input again), so the function returns an option and not returning is \<open>None\<close>.
\<close>

definition perpendicularDistance :: "point \<Rightarrow> point \<Rightarrow> point \<Rightarrow> real" where
  "perpendicularDistance pt lineStart lineEnd =
     (let dx = p_x lineEnd - p_x lineStart;
          dy = p_y lineEnd - p_y lineStart
      in if dx = 0 \<and> dy = 0
         then sqrt ((p_x pt - p_x lineStart) ^ 2 + (p_y pt - p_y lineStart) ^ 2)
         else
           (let t = max 0 (min 1
                      (((p_x pt - p_x lineStart) * dx + (p_y pt - p_y lineStart) * dy) /
                       (dx * dx + dy * dy)));
                projectionX = p_x lineStart + t * dx;
                projectionY = p_y lineStart + t * dy
            in sqrt ((p_x pt - projectionX) ^ 2 + (p_y pt - projectionY) ^ 2)))"

text \<open>
  The \<^verbatim>\<open>for\<close> loop of \<^verbatim>\<open>optimizePath\<close>: the pair
  \<^verbatim>\<open>(maxDistance, maxIndex)\<close> after the indices \<open>1, \<dots>, end - 1\<close>.
\<close>

definition farthest :: "point list \<Rightarrow> real \<times> nat" where
  "farthest points =
     fold (\<lambda>i (maxDistance, maxIndex).
             let distance = perpendicularDistance (points ! i) (points ! 0)
                              (points ! (length points - 1))
             in if distance > maxDistance then (distance, i) else (maxDistance, maxIndex))
          [1 ..< length points - 1] (0, 0)"

partial_function (option) optimizePath :: "point list \<Rightarrow> real \<Rightarrow> point list option" where
  "optimizePath points tolerance =
     (if length points \<le> 2 then Some points
      else if fst (farthest points) > tolerance
      then Option.bind (optimizePath (take (snd (farthest points) + 1) points) tolerance)
             (\<lambda>left. Option.bind (optimizePath (drop (snd (farthest points)) points) tolerance)
                (\<lambda>right. Some (butlast left @ right)))
      else Some [points ! 0, points ! (length points - 1)])"

section \<open>Concrete scenarios\<close>

definition stroke0 :: operationData where
  "stroke0 = \<lparr>d_points = [\<lparr>p_x = 0, p_y = 0\<rparr>, \<lparr>p_x = 10, p_y = 10\<rparr>],
              d_color = ''#000000'', d_width = 4, d_tool = ''brush''\<rparr>"

definition start0 :: drawStartData where
  "start0 = \<lparr>ds_x = 3, ds_y = 4, ds_color = ''#000000'', ds_width = 4, ds_tool = ''brush''\<rparr>"

text \<open>A joins room r1 alone; then commits one stroke; then B joins as well.\<close>

definition s_joined :: state where
  "s_joined = fst (run [(1, ''A'', Connection), (2, ''A'', JoinRoom ''r1'' None)] init)"

definition s_one :: state where
  "s_one = fst (run [(3, ''A'', DrawEnd stroke0)] s_joined)"

definition s_two :: state where
  "s_two = fst (run [(4, ''B'', Connection), (5, ''B'', JoinRoom ''r1'' (Some ''bob''))] s_one)"

text \<open>
  A room is emptied and joined again under the same id, with a commit before and after.
\<close>

definition recreate :: "(nat \<times> socketId \<times> event) list" where
  "recreate =
     [(1, ''A'', Connection), (2, ''A'', JoinRoom ''r1'' None), (3, ''A'', DrawEnd stroke0),
      (4, ''A'', Disconnect),
      (5, ''B'', Connection), (6, ''B'', JoinRoom ''r1'' (Some ''bob'')),
      (7, ''B'', DrawEnd stroke0)]"

text \<open>
  After the commit A leaves, which empties room r1, and B joins it again and commits.
\<close>

definition leave_and_return :: "(nat \<times> socketId \<times> event) list" where
  "leave_and_return =
     [(4, ''A'', Disconnect),
      (5, ''B'', Connection), (6, ''B'', JoinRoom ''r1'' (Some ''bob'')),
      (7, ''B'', DrawEnd stroke0)]"



text \<open>The point sequence of the path simplification example.\<close>

definition path0 :: "point list" where
  "path0 = [\<lparr>p_x = 0, p_y = 0\<rparr>, \<lparr>p_x = 1, p_y = 1 / 10\<rparr>, \<lparr>p_x = 2, p_y = - (1 / 10)\<rparr>,
            \<lparr>p_x = 10, p_y = 0\<rparr>]"

text \<open>Two participants join the same room one after the other.\<close>

definition two_joins :: "(nat \<times> socketId \<times> event) list" where
  "two_joins =
     [(1, ''A'', Connection), (2, ''A'', JoinRoom ''r1'' None),
      (4, ''B'', Connection), (5, ''B'', JoinRoom ''r1'' (Some ''bob''))]"

definition userA :: user where
  "userA = \<lparr>u_userId = ''A'', u_username = ''User1'', u_color = ''#FF6B6B'', u_joinedAt = 2\<rparr>"

definition userB :: user where
  "userB = \<lparr>u_userId = ''B'', u_username = ''bob'', u_color = ''#4ECDC4'', u_joinedAt = 5\<rparr>"

section \<open>Invariants of the reachable states\<close>

text \<open>
  The users of a room, if the table has the room; the two conditions that every reachable
  state meets: no room of the table is without users, and the current room of an open
  connection is in the table with that connection among its users; and the condition on
  ids: in every history they increase strictly and none is above the counter.
\<close>

definition members :: "roomId \<Rightarrow> state \<Rightarrow> (socketId \<times> user) list option" where
  "members r s = map_option users (rooms s r)"

definition registry_ok :: "state \<Rightarrow> bool" where
  "registry_ok s \<longleftrightarrow>
     (\<forall>r. members r s \<noteq> Some []) \<and>
     (\<forall>sid r. currentRoom s sid = Some (Some r) \<longrightarrow>
        (\<exists>us. members r s = Some us \<and> map_of us sid \<noteq> None))"

definition ids_ok :: "state \<Rightarrow> bool" where
  "ids_ok s \<longleftrightarrow>
     (\<forall>r. sorted_wrt (<) (map op_id (history r s)) \<and>
          (\<forall>opn \<in> set (history r s). op_id opn \<le> operationIdCounter s))"

section \<open>Basic facts about the operation log\<close>

lemmas handler_defs =
  handle_def on_join_room_def on_draw_start_def on_draw_move_def
  on_draw_end_def on_undo_def on_cursor_move_def on_disconnect_def
  addUserToRoom_def getOperations_def getRoom_def addOperation_def undoOperation_def
  updateCursor_def removeUserFromRoom_def getRoomUsers_def Let_def split_beta

lemmas scenario_defs =
  s_joined_def s_one_def s_two_def recreate_def stroke0_def start0_def init_def newRoom_def
  USER_COLORS_def history_def


lemma getOperations_history: "fst (getOperations r s) = history r s"
  by (simp add: getOperations_def getRoom_def history_def newRoom_def split: option.splits)

lemma history_addOperation:
  "history r' (snd (addOperation r u d now s)) =
     (if r' = r then history r s @ [fst (addOperation r u d now s)] else history r' s)"
  by (simp add: addOperation_def getRoom_def history_def newRoom_def Let_def
      split: option.splits)

lemma counter_addOperation:
  "operationIdCounter (snd (addOperation r u d now s)) = Suc (operationIdCounter s)"
  by (simp add: addOperation_def getRoom_def Let_def split: option.splits)

lemma id_addOperation:
  "op_id (fst (addOperation r u d now s)) = Suc (operationIdCounter s)"
  by (simp add: addOperation_def getRoom_def Let_def split: option.splits)

lemma undoOperation_history:
  "fst (undoOperation r s) = (if history r s = [] then None else Some (last (history r s)))"
  "history r' (snd (undoOperation r s)) =
     (if r' = r then butlast (history r s) else history r' s)"
  "operationIdCounter (snd (undoOperation r s)) = operationIdCounter s"
  by (simp_all add: undoOperation_def getRoom_def history_def newRoom_def Let_def
      split: option.splits)

lemma rooms_removeUserFromRoom:
  "rooms (snd (removeUserFromRoom r sid s)) r' =
     (if r' = r
      then (case rooms s r of
              None \<Rightarrow> None
            | Some rm \<Rightarrow>
                if AList.delete sid (users rm) = [] then None
                else Some (rm\<lparr>users := AList.delete sid (users rm),
                              cursors := (cursors rm)(sid := None)\<rparr>))
      else rooms s r')"
  by (simp add: removeUserFromRoom_def Let_def split: option.splits)

lemma counter_removeUserFromRoom:
  "operationIdCounter (snd (removeUserFromRoom r sid s)) = operationIdCounter s"
  by (simp add: removeUserFromRoom_def Let_def split: option.splits)


lemma committed_append: "committed (xs @ ys) = committed xs @ committed ys"
  by (induction xs rule: committed.induct) auto

lemma reachable_run: "reachable s \<Longrightarrow> reachable (fst (run evs s))"
proof (induction evs arbitrary: s)
  case Nil
  then show ?case by simp
next
  case (Cons e evs)
  obtain now sid ev where e: "e = (now, sid, ev)" by (cases e) auto
  have "reachable (fst (handle now sid ev s))"
    using Cons.prems by (rule reachable_step)
  then have "reachable (fst (run evs (fst (handle now sid ev s))))"
    by (rule Cons.IH)
  then show ?case by (simp add: e split_beta)
qed

section \<open>Snapshot order is commit order\<close>

lemma history_commits:
  "history r (snd (commits cs s)) =
     history r s @ map snd (filter (\<lambda>c. fst c = r) (fst (commits cs s)))"
proof (induction cs arbitrary: s)
  case Nil
  show ?case by simp
next
  case (Cons c cs)
  obtain r' u d now where c: "c = (r', u, d, now)" by (cases c) auto
  show ?case
    using Cons.IH [of "snd (addOperation r' u d now s)"]
    by (simp add: c split_beta Let_def history_addOperation)
qed

text \<open>
  C2. After any sequence of commits, into this room and into others, the snapshot of a
  room is its snapshot before the sequence followed by the operations committed into
  that room, in the order of the commits: every commit appends one operation at the tail
  and nothing is reordered.
\<close>

theorem snapshot_is_commit_order:
  "fst (getOperations r (snd (commits cs s))) =
     fst (getOperations r s) @ map snd (filter (\<lambda>c. fst c = r) (fst (commits cs s)))"
  by (simp only: getOperations_history history_commits)

section \<open>Undo is the inverse of the last commit\<close>

text \<open>
  C3. Committing an operation and undoing at once returns the operation just committed
  and gives back the snapshot the room had before the commit; if the room existed, the
  whole room table is as before. On a room with a non-empty history, undo returns the
  last operation of the history and removes exactly that one.
\<close>

theorem commit_then_undo:
  "fst (undoOperation r (snd (addOperation r u d now s))) =
     Some (fst (addOperation r u d now s)) \<and>
   fst (getOperations r (snd (undoOperation r (snd (addOperation r u d now s))))) =
     fst (getOperations r s) \<and>
   (rooms s r \<noteq> None \<longrightarrow>
      rooms (snd (undoOperation r (snd (addOperation r u d now s)))) = rooms s) \<and>
   (fst (getOperations r s) \<noteq> [] \<longrightarrow>
      fst (undoOperation r s) = Some (last (fst (getOperations r s))) \<and>
      fst (getOperations r (snd (undoOperation r s))) = butlast (fst (getOperations r s)))"
proof -
  have "rooms s r \<noteq> None \<longrightarrow>
          rooms (snd (undoOperation r (snd (addOperation r u d now s)))) = rooms s"
    by (auto simp add: undoOperation_def addOperation_def getRoom_def Let_def fun_eq_iff
        split: option.splits)
  then show ?thesis
    by (simp add: getOperations_history undoOperation_history history_addOperation)
qed

theorem commit_then_undo_witness:
  "rooms s_one ''r1'' \<noteq> None \<and>
   fst (getOperations ''r1'' s_one) \<noteq> [] \<and>
   fst (undoOperation ''r1'' (snd (addOperation ''r1'' ''A'' stroke0 9 s_one))) =
     Some (fst (addOperation ''r1'' ''A'' stroke0 9 s_one)) \<and>
   rooms (snd (undoOperation ''r1'' (snd (addOperation ''r1'' ''A'' stroke0 9 s_one)))) =
     rooms s_one \<and>
   fst (undoOperation ''r1'' s_one) = Some (last (fst (getOperations ''r1'' s_one))) \<and>
   fst (getOperations ''r1'' (snd (undoOperation ''r1'' s_one))) = []"
proof -
  have h1: "rooms s_one ''r1'' \<noteq> None"
    by (simp add: scenario_defs handler_defs)
  have h2: "fst (getOperations ''r1'' s_one) \<noteq> []"
    by (simp add: scenario_defs handler_defs)
  have h3: "butlast (fst (getOperations ''r1'' s_one)) = []"
    by (simp add: scenario_defs handler_defs)
  show ?thesis
    using commit_then_undo [of "''r1''" "''A''" stroke0 9 s_one] h1 h2 h3 by simp
qed

section \<open>Operation ids over a whole run\<close>

lemma handle_committed_ids:
  "map op_id (committed (snd (handle now sid ev s))) =
     [Suc (operationIdCounter s) ..< Suc (operationIdCounter (fst (handle now sid ev s)))]"
  by (cases ev) (auto simp add: handler_defs split: option.splits)

lemma handle_counter_mono:
  "operationIdCounter s \<le> operationIdCounter (fst (handle now sid ev s))"
  by (cases ev) (auto simp add: handler_defs split: option.splits)

lemma run_counter_mono:
  "operationIdCounter s \<le> operationIdCounter (fst (run evs s))"
proof (induction evs arbitrary: s)
  case Nil
  show ?case by simp
next
  case (Cons e evs)
  obtain now sid ev where e: "e = (now, sid, ev)" by (cases e) auto
  show ?case
    using Cons.IH [of "fst (handle now sid ev s)"] handle_counter_mono [of s now sid ev]
    by (simp add: e split_beta)
qed

lemma upt_join: "a \<le> b \<Longrightarrow> b \<le> c \<Longrightarrow> [a..<b] @ [b..<c] = [a..<c]"
  by (metis le_Suc_ex upt_add_eq_append)

lemma run_committed_ids:
  "map op_id (committed (snd (run evs s))) =
     [Suc (operationIdCounter s) ..< Suc (operationIdCounter (fst (run evs s)))]"
proof (induction evs arbitrary: s)
  case Nil
  show ?case by simp
next
  case (Cons e evs)
  obtain now sid ev where e: "e = (now, sid, ev)" by (cases e) auto
  let ?s1 = "fst (handle now sid ev s)"
  have "map op_id (committed (snd (run (e # evs) s))) =
          map op_id (committed (snd (handle now sid ev s))) @
          map op_id (committed (snd (run evs ?s1)))"
    by (simp add: e split_beta committed_append)
  also have "\<dots> = [Suc (operationIdCounter s) ..< Suc (operationIdCounter ?s1)] @
                  [Suc (operationIdCounter ?s1) ..<
                   Suc (operationIdCounter (fst (run evs ?s1)))]"
    by (simp only: handle_committed_ids Cons.IH)
  also have "\<dots> = [Suc (operationIdCounter s) ..<
                   Suc (operationIdCounter (fst (run evs ?s1)))]"
    using handle_counter_mono [of s now sid ev] run_counter_mono [of ?s1 evs]
    by (intro upt_join) simp_all
  finally show ?case by (simp add: e split_beta)
qed

lemma commits_ids:
  "map (op_id \<circ> snd) (fst (commits cs s)) =
     [Suc (operationIdCounter s) ..< Suc (operationIdCounter s + length cs)]"
proof (induction cs arbitrary: s)
  case Nil
  show ?case by simp
next
  case (Cons c cs)
  obtain r u d now where c: "c = (r, u, d, now)" by (cases c) auto
  have "[Suc (operationIdCounter s) ..< Suc (Suc (operationIdCounter s + length cs))] =
        Suc (operationIdCounter s) #
        [Suc (Suc (operationIdCounter s)) ..< Suc (Suc (operationIdCounter s + length cs))]"
    by (rule upt_conv_Cons) simp
  then show ?case
    using Cons.IH [of "snd (addOperation r u d now s)"]
    by (simp add: c split_beta id_addOperation counter_addOperation del: upt_Suc)
qed

text \<open>
  C10. Over any run of the event loop, from any state, the ids of the operations
  committed during the run, taken in commit order whatever their rooms, are strictly
  increasing and all above the counter's value at the start; so no two of them are
  equal. Rooms may be emptied, discarded and created again during the run. The same
  holds for any sequence of direct calls of \<^verbatim>\<open>addOperation\<close>.
\<close>

theorem ids_globally_increasing:
  "sorted_wrt (<) (operationIdCounter s # map op_id (committed (snd (run evs s)))) \<and>
   distinct (map op_id (committed (snd (run evs s)))) \<and>
   sorted_wrt (<) (operationIdCounter s # map (op_id \<circ> snd) (fst (commits cs s))) \<and>
   distinct (map (op_id \<circ> snd) (fst (commits cs s)))"
  by (simp add: run_committed_ids commits_ids del: upt_Suc)

theorem ids_globally_increasing_witness:
  "rooms (fst (run (take 4 recreate) init)) ''r1'' = None \<and>
   map op_id (committed (snd (run recreate init))) = [1, 2] \<and>
   sorted_wrt (<) (operationIdCounter init # map op_id (committed (snd (run recreate init)))) \<and>
   distinct (map op_id (committed (snd (run recreate init))))"
proof -
  have "rooms (fst (run (take 4 recreate) init)) ''r1'' = None"
    by (simp add: scenario_defs handler_defs)
  moreover have "map op_id (committed (snd (run recreate init))) = [1, 2]"
    by code_simp
  ultimately show ?thesis
    using ids_globally_increasing [of init recreate] by simp
qed

section \<open>Undo and its broadcast\<close>

text \<open>
  C7. When the history of a room is empty, undo returns nothing and the history stays
  empty; if the room exists the state does not change at all; and the undo handler of a
  connection whose current room it is sends nothing. In general the undo handler either
  sends nothing and changes no history, or sends exactly one
  \<^verbatim>\<open>operation_removed\<close> to the connection's room, carrying the id of the operation
  that was the last of that room's history and is now removed from it.
\<close>

theorem undo_broadcast:
  "(fst (getOperations r s) = [] \<longrightarrow>
      fst (undoOperation r s) = None \<and>
      fst (getOperations r (snd (undoOperation r s))) = [] \<and>
      (rooms s r \<noteq> None \<longrightarrow> snd (undoOperation r s) = s) \<and>
      (currentRoom s sid = Some (Some r) \<longrightarrow>
         snd (handle now sid Undo s) = [] \<and>
         fst (getOperations r (fst (handle now sid Undo s))) = [])) \<and>
   ((snd (handle now sid Undo s) = [] \<and>
     (\<forall>r'. fst (getOperations r' (fst (handle now sid Undo s))) = fst (getOperations r' s))) \<or>
    (\<exists>r' opn. currentRoom s sid = Some (Some r') \<and>
       snd (handle now sid Undo s) = [IoTo r' (OperationRemoved (op_id opn))] \<and>
       fst (getOperations r' s) = fst (getOperations r' (fst (handle now sid Undo s))) @ [opn] \<and>
       fst (undoOperation r' s) = Some opn))"
proof -
  have hist: "\<And>r' cr. history r' (fst (on_undo sid cr s)) =
      (if truthy cr \<and> r' = the cr then butlast (history r' s) else history r' s)"
    by (simp add: on_undo_def split_beta undoOperation_history split: option.splits)
  have out: "\<And>cr. snd (on_undo sid cr s) =
      (if truthy cr \<and> history (the cr) s \<noteq> []
       then [IoTo (the cr) (OperationRemoved (op_id (last (history (the cr) s))))] else [])"
    by (simp add: on_undo_def split_beta undoOperation_history split: option.splits)
  have h: "handle now sid Undo s =
      (case currentRoom s sid of None \<Rightarrow> (s, []) | Some cr \<Rightarrow> on_undo sid cr s)"
    by (simp add: handle_def split: option.splits)
  have same: "fst (getOperations r s) = [] \<longrightarrow> rooms s r \<noteq> None \<longrightarrow> snd (undoOperation r s) = s"
    by (auto simp add: undoOperation_def getOperations_def getRoom_def Let_def
        split: option.splits)
  show ?thesis
  proof (cases "currentRoom s sid")
    case None
    then show ?thesis
      using same by (simp add: h getOperations_history undoOperation_history)
  next
    case (Some cr)
    show ?thesis
    proof (cases "truthy cr \<and> history (the cr) s \<noteq> []")
      case False
      then show ?thesis
        using Some same
        by (auto simp add: h getOperations_history undoOperation_history hist out)
    next
      case True
      then obtain r' where cr: "cr = Some r'" by (cases cr) auto
      show ?thesis
        using Some True cr same
        by (auto simp add: h getOperations_history undoOperation_history hist out)
    qed
  qed
qed

theorem undo_broadcast_witness:
  "fst (getOperations ''r1'' s_joined) = [] \<and>
   rooms s_joined ''r1'' \<noteq> None \<and>
   currentRoom s_joined ''A'' = Some (Some ''r1'') \<and>
   fst (undoOperation ''r1'' s_joined) = None \<and>
   snd (undoOperation ''r1'' s_joined) = s_joined \<and>
   snd (handle 9 ''A'' Undo s_joined) = [] \<and>
   fst (getOperations ''r1'' (fst (handle 9 ''A'' Undo s_joined))) = []"
proof -
  have h1: "fst (getOperations ''r1'' s_joined) = []"
    by (simp add: scenario_defs handler_defs)
  have h2: "rooms s_joined ''r1'' \<noteq> None"
    by (simp add: scenario_defs handler_defs)
  have h3: "currentRoom s_joined ''A'' = Some (Some ''r1'')"
    by (simp add: scenario_defs handler_defs)
  show ?thesis
    using undo_broadcast [of "''r1''" s_joined "''A''" 9] h1 h2 h3 by simp
qed

section \<open>Disconnect in the middle of a stroke\<close>










section \<open>Path simplification on the example of the specification\<close>

lemma sqrt_hundredth: "sqrt (1 / 100) = 1 / 10"
proof -
  have "sqrt ((1 / 10) ^ 2) = \<bar>1 / 10 :: real\<bar>"
    by (rule real_sqrt_abs)
  then show ?thesis
    by (simp add: power2_eq_square)
qed

lemma distance_second:
  "perpendicularDistance \<lparr>p_x = 1, p_y = 1 / 10\<rparr> \<lparr>p_x = 0, p_y = 0\<rparr> \<lparr>p_x = 10, p_y = 0\<rparr> =
     1 / 10"
  by (simp add: perpendicularDistance_def Let_def power2_eq_square sqrt_hundredth)

lemma distance_third:
  "perpendicularDistance \<lparr>p_x = 2, p_y = - (1 / 10)\<rparr> \<lparr>p_x = 0, p_y = 0\<rparr>
     \<lparr>p_x = 10, p_y = 0\<rparr> = 1 / 10"
  by (simp add: perpendicularDistance_def Let_def power2_eq_square sqrt_hundredth)

lemma upt_1_3: "[1 ..< 3] = [1, 2::nat]"
  by (simp add: upt_rec)

lemma farthest_example: "farthest path0 = (1 / 10, 1)"
  by (simp add: farthest_def path0_def upt_1_3 distance_second distance_third Let_def)

text \<open>
  C9. With tolerance 2 the four points \<open>(0, 0)\<close>, \<open>(1, 0.1)\<close>, \<open>(2, -0.1)\<close>,
  \<open>(10, 0)\<close> are simplified to the two endpoints: both interior points are at distance
  \<open>0.1\<close> from the chord, the maximum \<open>0.1\<close> does not exceed the tolerance, and the
  function returns without recursion.
\<close>

theorem optimizePath_example:
  "optimizePath
     [\<lparr>p_x = 0, p_y = 0\<rparr>, \<lparr>p_x = 1, p_y = 1 / 10\<rparr>, \<lparr>p_x = 2, p_y = - (1 / 10)\<rparr>,
      \<lparr>p_x = 10, p_y = 0\<rparr>] 2 =
     Some [\<lparr>p_x = 0, p_y = 0\<rparr>, \<lparr>p_x = 10, p_y = 0\<rparr>] \<and>
   perpendicularDistance \<lparr>p_x = 1, p_y = 1 / 10\<rparr> \<lparr>p_x = 0, p_y = 0\<rparr>
     \<lparr>p_x = 10, p_y = 0\<rparr> \<le> 2 \<and>
   perpendicularDistance \<lparr>p_x = 2, p_y = - (1 / 10)\<rparr> \<lparr>p_x = 0, p_y = 0\<rparr>
     \<lparr>p_x = 10, p_y = 0\<rparr> \<le> 2"
proof -
  have "optimizePath path0 2 = Some [\<lparr>p_x = 0, p_y = 0\<rparr>, \<lparr>p_x = 10, p_y = 0\<rparr>]"
    using farthest_example
    by (subst optimizePath.simps) (simp add: path0_def)
  then show ?thesis
    by (simp add: path0_def distance_second distance_third)
qed

section \<open>The last leave discards the room\<close>

lemma join_absent_room:
  assumes "rooms s r = None"
  shows "snd (on_join_room sid r name now s) =
           [SocketEmit sid (FullSync [] [fst (addUserToRoom r sid name now s)]),
            IoTo r (UserJoined sid (fst (addUserToRoom r sid name now s))
                      [fst (addUserToRoom r sid name now s)])]"
    and "rooms (fst (on_join_room sid r name now s)) r =
           Some \<lparr>users = [(sid, fst (addUserToRoom r sid name now s))], operations = [],
                 cursors = Map.empty\<rparr>"
    and "u_userId (fst (addUserToRoom r sid name now s)) = sid"
  using assms
  by (simp_all add: on_join_room_def addUserToRoom_def getOperations_def getRoomUsers_def
      getRoom_def newRoom_def Let_def split_beta split: option.splits)

text \<open>
  C5. When removing a participant leaves the room without users, the room is removed from
  the table at once, with its history, users and cursors. A join under the same room id
  then creates a new room: the \<^verbatim>\<open>full_sync\<close> of the joining participant carries
  an empty history and a participant list with the joining participant alone, and the
  room holds nothing else.
\<close>

theorem last_leave_discards_room:
  assumes "rooms s r = Some rm" and "length (AList.delete sid (users rm)) = 0"
  shows "rooms (snd (removeUserFromRoom r sid s)) r = None \<and>
         (\<exists>usr. u_userId usr = sid' \<and>
            snd (on_join_room sid' r name now (snd (removeUserFromRoom r sid s))) =
              [SocketEmit sid' (FullSync [] [usr]), IoTo r (UserJoined sid' usr [usr])] \<and>
            rooms (fst (on_join_room sid' r name now (snd (removeUserFromRoom r sid s)))) r =
              Some \<lparr>users = [(sid', usr)], operations = [], cursors = Map.empty\<rparr>)"
proof -
  have gone: "rooms (snd (removeUserFromRoom r sid s)) r = None"
    using assms by (simp add: rooms_removeUserFromRoom)
  show ?thesis
    using gone join_absent_room [OF gone, of sid' name now] by blast
qed

theorem last_leave_discards_room_witness:
  "rooms s_one ''r1'' \<noteq> None \<and>
   fst (getOperations ''r1'' s_one) \<noteq> [] \<and>
   length (AList.delete ''A'' (users (the (rooms s_one ''r1'')))) = 0 \<and>
   rooms (snd (removeUserFromRoom ''r1'' ''A'' s_one)) ''r1'' = None \<and>
   (\<exists>usr. u_userId usr = ''B'' \<and>
      snd (on_join_room ''B'' ''r1'' None 9 (snd (removeUserFromRoom ''r1'' ''A'' s_one))) =
        [SocketEmit ''B'' (FullSync [] [usr]), IoTo ''r1'' (UserJoined ''B'' usr [usr])])"
proof -
  have a: "rooms s_one ''r1'' \<noteq> None"
    by (simp add: scenario_defs handler_defs)
  then obtain rm where rm: "rooms s_one ''r1'' = Some rm"
    by auto
  have b: "length (AList.delete ''A'' (users (the (rooms s_one ''r1'')))) = 0"
    by (simp add: scenario_defs handler_defs)
  have c: "fst (getOperations ''r1'' s_one) \<noteq> []"
    by (simp add: scenario_defs handler_defs)
  from b rm have b': "length (AList.delete ''A'' (users rm)) = 0"
    by simp
  show ?thesis
    using last_leave_discards_room [OF rm b', of "''B''" None 9] a b c by blast
qed

section \<open>Two joins into the same room\<close>

lemma map_snd_update_fresh:
  "map_of al k = None \<Longrightarrow> map snd (AList.update k v al) = map snd al @ [v]"
  by (induction al) (auto split: if_splits)

lemma map_of_update_other:
  "k' \<noteq> k \<Longrightarrow> map_of (AList.update k v al) k' = map_of al k'"
  by (simp add: update_conv)

text \<open>
  C6 (amended). Two different participants join the same room one after the other, the
  second not being among its users before. Both \<^verbatim>\<open>full_sync\<close> payloads carry the
  same history, the snapshot of the room before the joins; the participant list sent to
  the second is the list sent to the first with the second participant appended.
\<close>

theorem join_payloads:
  assumes "sid2 \<noteq> sid1"
    and "\<forall>rm. rooms s r = Some rm \<longrightarrow> map_of (users rm) sid2 = None"
  shows "\<exists>us1 usr2.
           snd (on_join_room sid1 r n1 t1 s) ! 0 =
             SocketEmit sid1 (FullSync (fst (getOperations r s)) us1) \<and>
           snd (on_join_room sid2 r n2 t2 (fst (on_join_room sid1 r n1 t1 s))) ! 0 =
             SocketEmit sid2 (FullSync (fst (getOperations r s)) (us1 @ [usr2])) \<and>
           u_userId usr2 = sid2"
proof (cases "rooms s r")
  case None
  then show ?thesis
    using assms(1)
    by (simp add: on_join_room_def addUserToRoom_def getOperations_def getRoomUsers_def
        getRoom_def newRoom_def Let_def split_beta split: option.splits)
next
  case (Some rm)
  then have "map_of (users rm) sid2 = None"
    using assms(2) by simp
  then show ?thesis
    using assms(1) Some
    by (simp add: on_join_room_def addUserToRoom_def getOperations_def getRoomUsers_def
        getRoom_def newRoom_def Let_def split_beta map_snd_update_fresh map_of_update_other
        split: option.splits)
qed

theorem join_payloads_witness:
  "''B'' \<noteq> ''A'' \<and>
   rooms s_one ''r1'' \<noteq> None \<and>
   map_of (users (the (rooms s_one ''r1''))) ''B'' = None \<and>
   (\<exists>us1 usr2.
      snd (on_join_room ''A'' ''r1'' None 8 s_one) ! 0 =
        SocketEmit ''A'' (FullSync (fst (getOperations ''r1'' s_one)) us1) \<and>
      snd (on_join_room ''B'' ''r1'' None 9 (fst (on_join_room ''A'' ''r1'' None 8 s_one))) ! 0 =
        SocketEmit ''B'' (FullSync (fst (getOperations ''r1'' s_one)) (us1 @ [usr2])) \<and>
      u_userId usr2 = ''B'')"
proof -
  have a: "''B'' \<noteq> ''A''"
    by simp
  have b: "rooms s_one ''r1'' \<noteq> None"
    by (simp add: scenario_defs handler_defs)
  have c: "map_of (users (the (rooms s_one ''r1''))) ''B'' = None"
    by (simp add: scenario_defs handler_defs)
  then have d: "\<forall>rm. rooms s_one ''r1'' = Some rm \<longrightarrow> map_of (users rm) ''B'' = None"
    by auto
  show ?thesis
    using join_payloads [OF a d, of None 8 None 9] a b c by blast
qed

text \<open>
  C6 as stated fails: from the initial state A and B join room r1; A's payload lists A,
  B's payload lists A and B.
\<close>

theorem full_sync_identical_counterexample:
  "snd (run two_joins init) =
     [SocketEmit ''A'' (FullSync [] [userA]), IoTo ''r1'' (UserJoined ''A'' userA [userA]),
      SocketEmit ''B'' (FullSync [] [userA, userB]),
      IoTo ''r1'' (UserJoined ''B'' userB [userA, userB])] \<and>
   FullSync [] [userA] \<noteq> FullSync [] [userA, userB]"
  by code_simp

section \<open>Rooms and their participants\<close>

lemma update_not_Nil: "AList.update k v al \<noteq> []"
  by (cases al) auto

lemma delete_not_Nil: "map_of al k' \<noteq> None \<Longrightarrow> k' \<noteq> k \<Longrightarrow> AList.delete k al \<noteq> []"
  by (metis delete_conv fun_upd_other map_of.simps(1))

lemma members_join:
  "members r' (fst (on_join_room sid r name now s)) =
     (if r' = r
      then Some (AList.update sid (fst (addUserToRoom r sid name now s))
                   (case members r s of None \<Rightarrow> [] | Some us \<Rightarrow> us))
      else members r' s)"
  "currentRoom (fst (on_join_room sid r name now s)) = (currentRoom s)(sid \<mapsto> Some r)"
  by (simp_all add: members_def on_join_room_def addUserToRoom_def getOperations_def
      getRoom_def newRoom_def Let_def split_beta split: option.splits)

lemma members_draw_end:
  "members r' (fst (on_draw_end sid cr d now s)) =
     (if truthy cr \<and> r' = the cr
      then Some (case members r' s of None \<Rightarrow> [] | Some us \<Rightarrow> us)
      else members r' s)"
  "currentRoom (fst (on_draw_end sid cr d now s)) = currentRoom s"
  by (simp_all add: members_def on_draw_end_def addOperation_def
      getRoom_def newRoom_def Let_def split_beta split: option.splits)

lemma members_undo:
  "members r' (fst (on_undo sid cr s)) =
     (if truthy cr \<and> r' = the cr
      then Some (case members r' s of None \<Rightarrow> [] | Some us \<Rightarrow> us)
      else members r' s)"
  "currentRoom (fst (on_undo sid cr s)) = currentRoom s"
  by (simp_all add: members_def on_undo_def undoOperation_def
      getRoom_def newRoom_def Let_def split_beta split: option.splits)

lemma members_cursor_move:
  "members r' (fst (on_cursor_move sid cr cx cy now s)) = members r' s"
  "currentRoom (fst (on_cursor_move sid cr cx cy now s)) = currentRoom s"
  by (simp_all add: members_def on_cursor_move_def updateCursor_def split: option.splits)

lemma members_disconnect:
  "members r' (fst (on_disconnect sid cr s)) =
     (if truthy cr \<and> r' = the cr
      then (case members r' s of
              None \<Rightarrow> None
            | Some us \<Rightarrow> if AList.delete sid us = [] then None else Some (AList.delete sid us))
      else members r' s)"
  "currentRoom (fst (on_disconnect sid cr s)) = currentRoom s"
  by (simp_all add: members_def on_disconnect_def removeUserFromRoom_def
      Let_def split_beta split: option.splits)


lemma members_currentRoom_update [simp]:
  "members r (s\<lparr>currentRoom := c\<rparr>) = members r s"
  by (simp add: members_def)

lemma registry_okI:
  assumes "\<And>r. members r s \<noteq> Some []"
    and "\<And>sid r. currentRoom s sid = Some (Some r) \<Longrightarrow>
           \<exists>us. members r s = Some us \<and> map_of us sid \<noteq> None"
  shows "registry_ok s"
  using assms unfolding registry_ok_def by blast

lemma registry_okD:
  assumes "registry_ok s"
  shows "members r s \<noteq> Some []"
    and "currentRoom s sid = Some (Some r) \<Longrightarrow>
           \<exists>us. members r s = Some us \<and> map_of us sid \<noteq> None"
  using assms unfolding registry_ok_def by blast+

lemma registry_ok_init: "registry_ok init"
  by (simp add: registry_ok_def members_def init_def)

lemma registry_ok_join:
  assumes ok: "registry_ok s"
  shows "registry_ok (fst (on_join_room sid r name now s))"
proof (rule registry_okI)
  fix r'
  show "members r' (fst (on_join_room sid r name now s)) \<noteq> Some []"
    using registry_okD(1) [OF ok, of r'] by (simp add: members_join update_not_Nil)
next
  fix sid' r'
  assume c: "currentRoom (fst (on_join_room sid r name now s)) sid' = Some (Some r')"
  show "\<exists>us. members r' (fst (on_join_room sid r name now s)) = Some us \<and>
          map_of us sid' \<noteq> None"
  proof (cases "sid' = sid")
    case True
    with c have "r' = r" by (simp add: members_join)
    with True show ?thesis by (simp add: members_join update_conv)
  next
    case False
    with c have "currentRoom s sid' = Some (Some r')" by (simp add: members_join)
    then obtain us where "members r' s = Some us" "map_of us sid' \<noteq> None"
      using registry_okD(2) [OF ok] by blast
    with False show ?thesis by (auto simp add: members_join update_conv)
  qed
qed

lemma registry_ok_same_members:
  assumes ok: "registry_ok s"
    and cur: "currentRoom s sid = Some cr"
    and mem: "\<And>r'. members r' s' =
                (if truthy cr \<and> r' = the cr
                 then Some (case members r' s of None \<Rightarrow> [] | Some us \<Rightarrow> us)
                 else members r' s)"
    and same: "currentRoom s' = currentRoom s"
  shows "registry_ok s'"
proof -
  have eq: "members r' s' = members r' s" for r'
  proof (cases "truthy cr \<and> r' = the cr")
    case False
    then show ?thesis by (auto simp add: mem)
  next
    case True
    then have "cr = Some r'" by (cases cr) auto
    with cur obtain us where "members r' s = Some us"
      using registry_okD(2) [OF ok, of sid r'] by blast
    with True show ?thesis by (simp add: mem)
  qed
  show ?thesis
    using ok unfolding registry_ok_def eq same .
qed

lemma registry_ok_disconnect:
  assumes ok: "registry_ok s"
  shows "registry_ok ((fst (on_disconnect sid cr s))
           \<lparr>currentRoom := (currentRoom (fst (on_disconnect sid cr s)))(sid := None)\<rparr>)"
    (is "registry_ok ?s'")
proof (rule registry_okI)
  fix r'
  show "members r' ?s' \<noteq> Some []"
    using registry_okD(1) [OF ok, of r']
    by (simp add: members_disconnect split: option.splits)
next
  fix sid' r'
  assume c: "currentRoom ?s' sid' = Some (Some r')"
  then have ne: "sid' \<noteq> sid" and "currentRoom s sid' = Some (Some r')"
    by (auto simp add: members_disconnect split: if_splits)
  then obtain us where us: "members r' s = Some us" "map_of us sid' \<noteq> None"
    using registry_okD(2) [OF ok] by blast
  have "AList.delete sid us \<noteq> []"
    using us(2) ne by (rule delete_not_Nil)
  moreover have "map_of (AList.delete sid us) sid' \<noteq> None"
    using us(2) ne by (simp add: delete_conv)
  ultimately show "\<exists>us. members r' ?s' = Some us \<and> map_of us sid' \<noteq> None"
    using us by (auto simp add: members_disconnect)
qed

lemma registry_ok_handle:
  assumes ok: "registry_ok s"
  shows "registry_ok (fst (handle now sid ev s))"
proof (cases "currentRoom s sid")
  case None
  have "registry_ok (s\<lparr>currentRoom := (currentRoom s)(sid \<mapsto> None)\<rparr>)"
    using ok by (auto simp add: registry_ok_def members_def)
  with None ok show ?thesis
    by (cases ev) (simp_all add: handle_def)
next
  case (Some cr)
  show ?thesis
  proof (cases ev)
    case Connection
    with Some ok show ?thesis by (simp add: handle_def)
  next
    case (JoinRoom r name)
    with Some registry_ok_join [OF ok] show ?thesis by (simp add: handle_def)
  next
    case (DrawStart d)
    with Some ok show ?thesis by (simp add: handle_def on_draw_start_def)
  next
    case (DrawMove p)
    with Some ok show ?thesis by (simp add: handle_def on_draw_move_def)
  next
    case (DrawEnd d)
    have "registry_ok (fst (on_draw_end sid cr d now s))"
      using ok Some by (rule registry_ok_same_members) (rule members_draw_end)+
    with Some DrawEnd show ?thesis by (simp add: handle_def)
  next
    case Undo
    have "registry_ok (fst (on_undo sid cr s))"
      using ok Some by (rule registry_ok_same_members) (rule members_undo)+
    with Some Undo show ?thesis by (simp add: handle_def)
  next
    case (CursorMove cx cy)
    have "registry_ok (fst (on_cursor_move sid cr cx cy now s))"
      using ok by (simp add: registry_ok_def members_cursor_move)
    with Some CursorMove show ?thesis by (simp add: handle_def)
  next
    case Disconnect
    with Some registry_ok_disconnect [OF ok, of sid cr] show ?thesis
      by (simp add: handle_def split_beta)
  qed
qed

lemma reachable_registry_ok: "reachable s \<Longrightarrow> registry_ok s"
  by (induction rule: reachable.induct) (simp_all add: registry_ok_init registry_ok_handle)


lemma absent_room_calls:
  assumes "rooms s r = None"
  shows "removeUserFromRoom r sid s = (None, s)"
    and "getRoomUsers r s = []"
    and "updateCursor r sid cx cy now s = s"
    and "undoOperation r s = (None, s\<lparr>rooms := (rooms s)(r \<mapsto> newRoom)\<rparr>)"
    and "getOperations r s = ([], s\<lparr>rooms := (rooms s)(r \<mapsto> newRoom)\<rparr>)"
  using assms
  by (simp_all add: removeUserFromRoom_def getRoomUsers_def updateCursor_def
      undoOperation_def getOperations_def getRoom_def newRoom_def)

text \<open>
  C4 (amended). In every state reachable through the socket handlers a room is in the
  table iff it has at least one participant, and the current room of every open
  connection is in the table. On a room that is not in the table no call fails:
  \<^verbatim>\<open>removeUserFromRoom\<close>, \<^verbatim>\<open>getRoomUsers\<close> and
  \<^verbatim>\<open>updateCursor\<close> return nothing and change nothing, while
  \<^verbatim>\<open>undoOperation\<close> and \<^verbatim>\<open>getOperations\<close> return nothing but, by
  \<^verbatim>\<open>getRoom\<close>, put a new empty room into the table.
\<close>

theorem room_exists_iff_participants:
  "(reachable s \<longrightarrow>
      (rooms s r \<noteq> None \<longleftrightarrow> 0 < length (getRoomUsers r s)) \<and>
      (currentRoom s sid = Some (Some r) \<longrightarrow> rooms s r \<noteq> None)) \<and>
   (rooms s r = None \<longrightarrow>
      removeUserFromRoom r sid s = (None, s) \<and>
      getRoomUsers r s = [] \<and>
      updateCursor r sid cx cy now s = s \<and>
      undoOperation r s = (None, s\<lparr>rooms := (rooms s)(r \<mapsto> newRoom)\<rparr>) \<and>
      getOperations r s = ([], s\<lparr>rooms := (rooms s)(r \<mapsto> newRoom)\<rparr>))"
proof -
  have "rooms s r \<noteq> None \<longleftrightarrow> 0 < length (getRoomUsers r s)"
    and "currentRoom s sid = Some (Some r) \<longrightarrow> rooms s r \<noteq> None" if "reachable s"
  proof -
    have ok: "registry_ok s"
      using that by (rule reachable_registry_ok)
    show "rooms s r \<noteq> None \<longleftrightarrow> 0 < length (getRoomUsers r s)"
      using registry_okD(1) [OF ok, of r]
      by (auto simp add: getRoomUsers_def members_def split: option.splits)
    show "currentRoom s sid = Some (Some r) \<longrightarrow> rooms s r \<noteq> None"
      using registry_okD(2) [OF ok, of sid r]
      by (auto simp add: members_def)
  qed
  moreover have "removeUserFromRoom r sid s = (None, s) \<and>
      getRoomUsers r s = [] \<and>
      updateCursor r sid cx cy now s = s \<and>
      undoOperation r s = (None, s\<lparr>rooms := (rooms s)(r \<mapsto> newRoom)\<rparr>) \<and>
      getOperations r s = ([], s\<lparr>rooms := (rooms s)(r \<mapsto> newRoom)\<rparr>)"
    if "rooms s r = None"
    using absent_room_calls [OF that] by simp
  ultimately show ?thesis
    by blast
qed

theorem room_exists_iff_participants_witness:
  "reachable s_one \<and>
   rooms s_one ''r1'' \<noteq> None \<and> 0 < length (getRoomUsers ''r1'' s_one) \<and>
   currentRoom s_one ''A'' = Some (Some ''r1'') \<and>
   rooms s_one ''r2'' = None \<and> \<not> 0 < length (getRoomUsers ''r2'' s_one) \<and>
   removeUserFromRoom ''r2'' ''A'' s_one = (None, s_one) \<and>
   undoOperation ''r2'' s_one = (None, s_one\<lparr>rooms := (rooms s_one)(''r2'' \<mapsto> newRoom)\<rparr>) \<and>
   getOperations ''r2'' s_one = ([], s_one\<lparr>rooms := (rooms s_one)(''r2'' \<mapsto> newRoom)\<rparr>)"
proof -
  have a: "reachable s_one"
    unfolding s_one_def s_joined_def by (intro reachable_run reachable_init)
  have b: "currentRoom s_one ''A'' = Some (Some ''r1'')"
    by (simp add: scenario_defs handler_defs)
  have c: "rooms s_one ''r2'' = None"
    by (simp add: scenario_defs handler_defs)
  have d: "rooms s_one ''r1'' \<noteq> None"
    using room_exists_iff_participants [of s_one "''r1''" "''A''"] a b by blast
  have e: "0 < length (getRoomUsers ''r1'' s_one)"
    using room_exists_iff_participants [of s_one "''r1''" "''A''"] a d by blast
  have f: "\<not> 0 < length (getRoomUsers ''r2'' s_one)"
    using room_exists_iff_participants [of s_one "''r2''" "''A''"] a c by blast
  have g: "removeUserFromRoom ''r2'' ''A'' s_one = (None, s_one) \<and>
      undoOperation ''r2'' s_one =
        (None, s_one\<lparr>rooms := (rooms s_one)(''r2'' \<mapsto> newRoom)\<rparr>) \<and>
      getOperations ''r2'' s_one =
        ([], s_one\<lparr>rooms := (rooms s_one)(''r2'' \<mapsto> newRoom)\<rparr>)"
    using room_exists_iff_participants [of s_one "''r2''" "''A''"] c by blast
  show ?thesis
    using a b c d e f g by blast
qed

text \<open>
  C4 as stated fails: in the initial state room r1 is not in the table; after an undo, or
  after reading its operations, it is, with no participant.
\<close>

theorem absent_room_noop_counterexample:
  "reachable init \<and> rooms init ''r1'' = None \<and>
   fst (undoOperation ''r1'' init) = None \<and>
   rooms (snd (undoOperation ''r1'' init)) ''r1'' = Some newRoom \<and>
   fst (getOperations ''r1'' init) = [] \<and>
   rooms (snd (getOperations ''r1'' init)) ''r1'' = Some newRoom \<and>
   length (getRoomUsers ''r1'' (snd (undoOperation ''r1'' init))) = 0"
proof -
  have "rooms init ''r1'' = None \<and>
      fst (undoOperation ''r1'' init) = None \<and>
      rooms (snd (undoOperation ''r1'' init)) ''r1'' = Some newRoom \<and>
      fst (getOperations ''r1'' init) = [] \<and>
      rooms (snd (getOperations ''r1'' init)) ''r1'' = Some newRoom \<and>
      length (getRoomUsers ''r1'' (snd (undoOperation ''r1'' init))) = 0"
    by (simp add: undoOperation_def getOperations_def getRoom_def getRoomUsers_def
        init_def newRoom_def)
  with reachable_init show ?thesis
    by blast
qed

section \<open>Operation ids within a room\<close>

lemma ids_ok_init: "ids_ok init"
  by (simp add: ids_ok_def history_def init_def)

lemma history_currentRoom_update [simp]:
  "history r (s\<lparr>currentRoom := c\<rparr>) = history r s"
  by (simp add: history_def)

lemma history_join:
  "history r' (fst (on_join_room sid r name now s)) = history r' s"
  "operationIdCounter (fst (on_join_room sid r name now s)) = operationIdCounter s"
  by (simp_all add: history_def on_join_room_def addUserToRoom_def getOperations_def
      getRoom_def newRoom_def Let_def split_beta split: option.splits)

lemma history_draw_end:
  "history r' (fst (on_draw_end sid cr d now s)) =
     (if truthy cr \<and> r' = the cr
      then history r' s @ [fst (addOperation (the cr) sid d now s)]
      else history r' s)"
  "operationIdCounter (fst (on_draw_end sid cr d now s)) =
     (if truthy cr then Suc (operationIdCounter s) else operationIdCounter s)"
  by (simp_all add: on_draw_end_def split_beta history_addOperation counter_addOperation)

lemma history_undo:
  "history r' (fst (on_undo sid cr s)) =
     (if truthy cr \<and> r' = the cr then butlast (history r' s) else history r' s)"
  "operationIdCounter (fst (on_undo sid cr s)) = operationIdCounter s"
  by (simp_all add: on_undo_def split_beta undoOperation_history split: option.splits)

lemma history_cursor_move:
  "history r' (fst (on_cursor_move sid cr cx cy now s)) = history r' s"
  "operationIdCounter (fst (on_cursor_move sid cr cx cy now s)) = operationIdCounter s"
  by (simp_all add: history_def on_cursor_move_def updateCursor_def split: option.splits)

lemma history_disconnect:
  "history r' (fst (on_disconnect sid cr s)) = history r' s \<or>
   history r' (fst (on_disconnect sid cr s)) = []"
  "operationIdCounter (fst (on_disconnect sid cr s)) = operationIdCounter s"
  by (simp_all add: history_def on_disconnect_def removeUserFromRoom_def Let_def split_beta
      split: option.splits)

lemma sorted_wrt_butlast: "sorted_wrt P xs \<Longrightarrow> sorted_wrt P (butlast xs)"
  by (simp add: butlast_conv_take sorted_wrt_take)

lemma ids_ok_handle:
  assumes ok: "ids_ok s"
  shows "ids_ok (fst (handle now sid ev s))"
proof (cases "currentRoom s sid")
  case None
  have "ids_ok (s\<lparr>currentRoom := (currentRoom s)(sid \<mapsto> None)\<rparr>)"
    using ok by (simp add: ids_ok_def)
  with None ok show ?thesis
    by (cases ev) (simp_all add: handle_def)
next
  case (Some cr)
  show ?thesis
  proof (cases ev)
    case Connection
    with Some ok show ?thesis by (simp add: handle_def)
  next
    case (JoinRoom r name)
    have "ids_ok (fst (on_join_room sid r name now s))"
      using ok by (simp add: ids_ok_def history_join)
    with Some JoinRoom show ?thesis by (simp add: handle_def)
  next
    case (DrawStart d)
    with Some ok show ?thesis by (simp add: handle_def on_draw_start_def)
  next
    case (DrawMove p)
    with Some ok show ?thesis by (simp add: handle_def on_draw_move_def)
  next
    case (DrawEnd d)
    have "ids_ok (fst (on_draw_end sid cr d now s))"
      using ok
      by (fastforce simp add: ids_ok_def history_draw_end id_addOperation sorted_wrt_append)
    with Some DrawEnd show ?thesis by (simp add: handle_def)
  next
    case Undo
    have srt: "sorted_wrt (<) (map op_id (history r s))" for r
      using ok by (simp add: ids_ok_def)
    have bnd: "op_id opn \<le> operationIdCounter s" if "opn \<in> set (history r s)" for r opn
      using ok that by (simp add: ids_ok_def)
    have srt': "sorted_wrt (<) (map op_id (butlast (history r s)))" for r
      using sorted_wrt_butlast [OF srt [of r]] by (simp add: map_butlast)
    have "ids_ok (fst (on_undo sid cr s))"
      by (auto simp add: ids_ok_def history_undo srt srt' bnd dest: in_set_butlastD)
    with Some Undo show ?thesis by (simp add: handle_def)
  next
    case (CursorMove cx cy)
    have "ids_ok (fst (on_cursor_move sid cr cx cy now s))"
      using ok by (simp add: ids_ok_def history_cursor_move)
    with Some CursorMove show ?thesis by (simp add: handle_def)
  next
    case Disconnect
    have "ids_ok (fst (on_disconnect sid cr s))"
      unfolding ids_ok_def
    proof (intro allI)
      fix r
      from history_disconnect(1) [of r sid cr s]
      show "sorted_wrt (<) (map op_id (history r (fst (on_disconnect sid cr s)))) \<and>
            (\<forall>opn \<in> set (history r (fst (on_disconnect sid cr s))).
               op_id opn \<le> operationIdCounter (fst (on_disconnect sid cr s)))"
        using ok by (auto simp add: ids_ok_def history_disconnect(2))
    qed
    then have "ids_ok ((fst (on_disconnect sid cr s))
        \<lparr>currentRoom := (currentRoom (fst (on_disconnect sid cr s)))(sid := None)\<rparr>)"
      by (simp add: ids_ok_def)
    with Some Disconnect show ?thesis
      by (simp add: handle_def split_beta)
  qed
qed

lemma reachable_ids_ok: "reachable s \<Longrightarrow> ids_ok s"
  by (induction rule: reachable.induct) (simp_all add: ids_ok_init ids_ok_handle)

lemma committed_id_bounds:
  assumes "opn \<in> set (committed (snd (run evs s)))"
  shows "operationIdCounter s < op_id opn"
    and "op_id opn \<le> operationIdCounter (fst (run evs s))"
proof -
  have "op_id opn \<in> set (map op_id (committed (snd (run evs s))))"
    using assms by simp
  then have "op_id opn \<in> set [Suc (operationIdCounter s) ..<
      Suc (operationIdCounter (fst (run evs s)))]"
    by (simp only: run_committed_ids)
  then show "operationIdCounter s < op_id opn"
    and "op_id opn \<le> operationIdCounter (fst (run evs s))"
    by auto
qed

lemma committed_count:
  "length (committed (snd (run evs s))) =
     operationIdCounter (fst (run evs s)) - operationIdCounter s"
proof -
  have "length (map op_id (committed (snd (run evs s)))) =
      length [Suc (operationIdCounter s) ..< Suc (operationIdCounter (fst (run evs s)))]"
    by (simp only: run_committed_ids)
  then show ?thesis by (simp del: upt_Suc)
qed

text \<open>
  C1 (amended). The id given by a commit comes from one counter of the whole process:
  it is the counter plus one. In every reachable state the ids of a room's history
  increase strictly and the next id is above every id of every history. Nothing resets
  the counter: a commit adds one, an undo and the removal of a participant leave it as it
  is, and over any run of the event loop it never decreases. So the id given after a run
  is above every id that was in a history before the run and above every id committed
  during the run, whether or not the operation was undone or its room discarded since;
  ids are never used twice, and a room created again under the same id continues above
  all earlier ids. Counted from the start of the process, the id of a commit is the
  number of commits made before it plus one, hence 1 for the first commit only.
\<close>

theorem ids_from_process_counter:
  "(reachable s \<longrightarrow>
      sorted_wrt (<) (map op_id (fst (getOperations r s)) @
                      [op_id (fst (addOperation r u d now s))]) \<and>
      (\<forall>r' opn. opn \<in> set (fst (getOperations r' s)) \<longrightarrow>
         op_id opn < op_id (fst (addOperation r u d now s))) \<and>
      (\<forall>r' opn. opn \<in> set (fst (getOperations r' s)) \<longrightarrow>
         op_id opn < op_id (fst (addOperation r u d now (fst (run evs s)))))) \<and>
   op_id (fst (addOperation r u d now s)) = operationIdCounter s + 1 \<and>
   operationIdCounter (snd (addOperation r u d now s)) = operationIdCounter s + 1 \<and>
   operationIdCounter (snd (undoOperation r s)) = operationIdCounter s \<and>
   operationIdCounter (snd (removeUserFromRoom r sid s)) = operationIdCounter s \<and>
   op_id (fst (addOperation r u d now init)) = 1 \<and>
   operationIdCounter s \<le> operationIdCounter (fst (run evs s)) \<and>
   (\<forall>opn. opn \<in> set (committed (snd (run evs s))) \<longrightarrow>
      operationIdCounter s < op_id opn \<and>
      op_id opn < op_id (fst (addOperation r u d now (fst (run evs s))))) \<and>
   op_id (fst (addOperation r u d now (fst (run evs init)))) =
     length (committed (snd (run evs init))) + 1"
proof -
  have mono: "operationIdCounter s \<le> operationIdCounter (fst (run evs s))"
    by (rule run_counter_mono)
  have "sorted_wrt (<) (map op_id (history r s) @ [Suc (operationIdCounter s)])"
    and "\<forall>r' opn. opn \<in> set (history r' s) \<longrightarrow> op_id opn < Suc (operationIdCounter s)"
    and "\<forall>r' opn. opn \<in> set (history r' s) \<longrightarrow>
           op_id opn < Suc (operationIdCounter (fst (run evs s)))"
    if "reachable s"
  proof -
    have ok: "ids_ok s"
      using that by (rule reachable_ids_ok)
    show "sorted_wrt (<) (map op_id (history r s) @ [Suc (operationIdCounter s)])"
      using ok by (auto simp add: ids_ok_def sorted_wrt_append less_Suc_eq_le)
    show "\<forall>r' opn. opn \<in> set (history r' s) \<longrightarrow> op_id opn < Suc (operationIdCounter s)"
      using ok by (auto simp add: ids_ok_def less_Suc_eq_le)
    then show "\<forall>r' opn. opn \<in> set (history r' s) \<longrightarrow>
           op_id opn < Suc (operationIdCounter (fst (run evs s)))"
      using mono by (meson less_le_trans Suc_le_mono)
  qed
  moreover have "operationIdCounter init = 0"
    by (simp add: init_def)
  moreover have "\<forall>opn. opn \<in> set (committed (snd (run evs s))) \<longrightarrow>
      operationIdCounter s < op_id opn \<and>
      op_id opn < Suc (operationIdCounter (fst (run evs s)))"
    using committed_id_bounds [of _ evs s] by (auto simp add: less_Suc_eq_le)
  moreover have "Suc (operationIdCounter (fst (run evs init))) =
      length (committed (snd (run evs init))) + 1"
    by (simp add: committed_count init_def)
  ultimately show ?thesis
    using mono
    by (simp add: getOperations_history id_addOperation counter_addOperation
        undoOperation_history counter_removeUserFromRoom)
qed

theorem ids_from_process_counter_witness:
  "reachable s_one \<and>
   map op_id (fst (getOperations ''r1'' s_one)) = [1] \<and>
   rooms (fst (run (take 1 leave_and_return) s_one)) ''r1'' = None \<and>
   map op_id (committed (snd (run leave_and_return s_one))) = [2] \<and>
   map op_id (fst (getOperations ''r1'' (fst (run leave_and_return s_one)))) = [2] \<and>
   op_id (fst (addOperation ''r1'' ''B'' stroke0 9 (fst (run leave_and_return s_one)))) = 3 \<and>
   sorted_wrt (<)
     (map op_id (fst (getOperations ''r1'' s_one)) @
      [op_id (fst (addOperation ''r1'' ''B'' stroke0 9 s_one))]) \<and>
   operationIdCounter s_one \<le> operationIdCounter (fst (run leave_and_return s_one))"
proof -
  have a: "reachable s_one"
    unfolding s_one_def s_joined_def by (intro reachable_run reachable_init)
  have b: "map op_id (fst (getOperations ''r1'' s_one)) = [1]"
    by code_simp
  have c: "rooms (fst (run (take 1 leave_and_return) s_one)) ''r1'' = None"
    by (simp add: scenario_defs handler_defs leave_and_return_def)
  have d: "map op_id (committed (snd (run leave_and_return s_one))) = [2]"
    by code_simp
  have e: "map op_id (fst (getOperations ''r1'' (fst (run leave_and_return s_one)))) = [2]"
    by code_simp
  have f: "operationIdCounter (fst (run leave_and_return s_one)) = 2"
    by code_simp
  note t = ids_from_process_counter [of s_one "''r1''" "''B''" stroke0 9 leave_and_return]
  note t' = ids_from_process_counter
    [of "fst (run leave_and_return s_one)" "''r1''" "''B''" stroke0 9]
  have g: "op_id (fst (addOperation ''r1'' ''B'' stroke0 9 (fst (run leave_and_return s_one)))) = 3"
    using t' f by simp
  have h: "sorted_wrt (<)
     (map op_id (fst (getOperations ''r1'' s_one)) @
      [op_id (fst (addOperation ''r1'' ''B'' stroke0 9 s_one))])"
    using t a by blast
  have i: "operationIdCounter s_one \<le> operationIdCounter (fst (run leave_and_return s_one))"
    using t by blast
  show ?thesis
    using a b c d e g h i by blast
qed

text \<open>
  C1 as stated fails: room r1 gets id 1, is discarded when its only participant leaves,
  and after it is created again its first commit gets id 2; and the first commit into a
  second room r2 gets id 2.
\<close>

theorem room_local_counter_counterexample:
  "rooms (fst (run (take 4 recreate) init)) ''r1'' = None \<and>
   map op_id (fst (getOperations ''r1'' (fst (run (take 3 recreate) init)))) = [1] \<and>
   map op_id (fst (getOperations ''r1'' (fst (run recreate init)))) = [2] \<and>
   map (op_id \<circ> snd) (fst (commits [(''r1'', ''A'', stroke0, 1), (''r2'', ''B'', stroke0, 2)] init)) =
     [1, 2]"
proof -
  have "rooms (fst (run (take 4 recreate) init)) ''r1'' = None"
    by (simp add: scenario_defs handler_defs)
  moreover have "map op_id (fst (getOperations ''r1'' (fst (run (take 3 recreate) init)))) = [1]"
    by code_simp
  moreover have "map op_id (fst (getOperations ''r1'' (fst (run recreate init)))) = [2]"
    by code_simp
  moreover have "map (op_id \<circ> snd)
      (fst (commits [(''r1'', ''A'', stroke0, 1), (''r2'', ''B'', stroke0, 2)] init)) = [1, 2]"
    by code_simp
  ultimately show ?thesis
    by blast
qed

end
